theory Spec2Isabelle
  imports Main "HOL-Library.Word"
begin

unbundle bit_operations_syntax

section \<open>Bytes and strings\<close>

text \<open>
  Go's \<open>byte\<close> is an unsigned 8-bit integer, and both \<open>[]byte\<close> and \<open>string\<close> are
  sequences of bytes. Indices and lengths are Go \<open>int\<close>s that never go negative on the
  paths modelled here; they are natural numbers, and every comparison the source writes
  with a subtraction (\<open>i == len(src)-1\<close>) is written with the addition on the other side
  (\<open>i + 1 = length src\<close>), which is the same comparison on the integers.
\<close>

type_synonym byte = "8 word"

abbreviation LF :: byte where "LF \<equiv> 10"
abbreviation CR :: byte where "CR \<equiv> 13"
abbreviation TAB :: byte where "TAB \<equiv> 9"
abbreviation SP :: byte where "SP \<equiv> 32"
abbreviation EQ :: byte where "EQ \<equiv> 61"

definition bytes :: "string \<Rightarrow> byte list" where
  "bytes s = map of_char s"

section \<open>quotedprintable: character classes and hex digits\<close>

definition isVchar :: "byte \<Rightarrow> bool" where
  "isVchar c = (33 \<le> c \<and> c \<le> 126)"

definition isWSP :: "byte \<Rightarrow> bool" where
  "isWSP c = (c = SP \<or> c = TAB)"

definition isNewline :: "byte \<Rightarrow> bool" where
  "isNewline c = (c = LF \<or> c = CR)"

definition hextable :: "byte list" where
  "hextable = bytes ''0123456789ABCDEF''"

text \<open>\<open>encodeByte\<close> writes the three bytes \<open>=XX\<close>; the model returns them.\<close>

definition encodeByte :: "byte \<Rightarrow> byte list" where
  "encodeByte b = [EQ, hextable ! unat (drop_bit 4 b), hextable ! unat (b AND 15)]"

datatype error =
    ErrUnexpectedEOF
  | InvalidBytesAfterEq "byte list"
  | InvalidHexByte byte
  | InvalidUnescapedByte byte
  | InvalidUnescapedByteQ byte
  | EncodingNotSupported "byte list"
  | MultipleCharsets "byte list" "byte list"
  | Base64Corrupt

definition fromHex :: "byte \<Rightarrow> error + byte" where
  "fromHex b =
     (if 48 \<le> b \<and> b \<le> 57 then Inr (b - 48)
      else if 65 \<le> b \<and> b \<le> 70 then Inr (b - 65 + 10)
      else Inl (InvalidHexByte b))"

text \<open>
  \<open>readHexByte v\<close> reads \<open>v[0]\<close> and \<open>v[1]\<close>; both callers guard it with
  \<open>i+2 < len\<close>, so \<open>v\<close> has two bytes. On a shorter slice Go panics; the model has no
  value for that case and the callers never reach it.
\<close>

fun readHexByte :: "byte list \<Rightarrow> error + byte" where
  "readHexByte (h # l # _) =
     (case fromHex h of
        Inl e \<Rightarrow> Inl e
      | Inr hb \<Rightarrow> (case fromHex l of
          Inl e \<Rightarrow> Inl e
        | Inr lb \<Rightarrow> Inr (push_bit 4 hb OR lb)))"
| "readHexByte _ = Inl ErrUnexpectedEOF"

section \<open>quotedprintable: Encode\<close>

definition isLastChar :: "nat \<Rightarrow> byte list \<Rightarrow> bool" where
  "isLastChar i src =
     (i + 1 = length src
      \<or> (i + 1 < length src \<and> src ! (i + 1) = LF)
      \<or> (i + 2 < length src \<and> src ! (i + 1) = CR \<and> src ! (i + 2) = LF))"

text \<open>One iteration of the loop of \<open>Encode\<close>: the bytes written for \<open>src[i]\<close>.\<close>

definition encodeAt :: "byte list \<Rightarrow> nat \<Rightarrow> byte list" where
  "encodeAt src i =
     (let c = src ! i in
      if c \<noteq> EQ \<and> (isVchar c \<or> isNewline c) then [c]
      else if isWSP c then (if isLastChar i src then encodeByte c else [c])
      else encodeByte c)"

text \<open>
  \<open>Encode(dst, src)\<close> with \<open>dst\<close> of \<open>MaxEncodedLen(len(src))\<close> bytes, as
  \<open>EncodeToString\<close> and \<open>encoder.Write\<close> call it: the loop appends to the written
  part \<open>dst[:n]\<close>, which is the result.
\<close>

function Encode_loop :: "byte list \<Rightarrow> nat \<Rightarrow> byte list \<Rightarrow> byte list" where
  "Encode_loop src i dst =
     (if i < length src then Encode_loop src (i + 1) (dst @ encodeAt src i) else dst)"
  by pat_completeness auto
termination
  by (relation "measure (\<lambda>(src, i, dst). length src - i)") auto

definition Encode :: "byte list \<Rightarrow> byte list" where
  "Encode src = Encode_loop src 0 []"

definition MaxEncodedLen :: "nat \<Rightarrow> nat" where
  "MaxEncodedLen n = 3 * n"

section \<open>quotedprintable: Decode\<close>

text \<open>\<open>bytes.IndexByte\<close>: the index of the first occurrence, \<open>None\<close> for \<open>-1\<close>.\<close>

fun IndexByte :: "byte list \<Rightarrow> byte \<Rightarrow> nat option" where
  "IndexByte [] c = None"
| "IndexByte (x # xs) c = (if x = c then Some 0 else map_option Suc (IndexByte xs c))"







section \<open>quotedprintable: the streaming encoder\<close>

text \<open>
  A Go slice is a window on a backing array: \<open>len\<close> bytes are visible, and a slice
  expression \<open>p[:k]\<close> may reach up to the capacity. The model keeps both parts: the
  visible bytes and the bytes of the backing array between \<open>len\<close> and \<open>cap\<close>.
\<close>

type_synonym slice = "byte list \<times> byte list"

datatype panic = SliceBoundsOutOfRange | IndexOutOfRange

text \<open>
  The loop of \<open>encoder.Write\<close> that counts, after the downstream writer accepted \<open>n\<close>
  bytes and reported an error, the input bytes whose encoding was written whole.
  \<open>None\<close> is the \<open>break\<close>.
\<close>

function countWritten :: "byte list \<Rightarrow> nat \<Rightarrow> nat \<Rightarrow> nat \<Rightarrow> nat" where
  "countWritten dbuf n i nn =
     (if i < n then
        (if dbuf ! i = EQ then
           (if n \<le> i + 2 then nn else countWritten dbuf n (i + 2 + 1) (nn + 1))
         else countWritten dbuf n (i + 1) (nn + 1))
      else nn)"
  by pat_completeness auto
termination
  by (relation "measure (\<lambda>(dbuf, n, i, nn). n - i)") auto

text \<open>
  \<open>encoder.Write(p)\<close> over a downstream writer \<open>wr\<close> with state \<open>w\<close>. The downstream
  writer receives the slice \<open>dbuf[:n]\<close> of a buffer of \<open>MaxEncodedLen(len(p))\<close> bytes
  (zero beyond the encoded text) and returns its state, the count it accepted and its
  error.
\<close>

definition encoder_Write ::
  "(slice \<Rightarrow> 'w \<Rightarrow> panic + ('w \<times> nat \<times> 'e option)) \<Rightarrow> 'w \<Rightarrow> byte list
     \<Rightarrow> panic + ('w \<times> nat \<times> 'e option)" where
  "encoder_Write wr w p =
     (let enc = Encode p;
          dbuf = enc @ replicate (MaxEncodedLen (length p) - length enc) 0
      in case wr (enc, drop (length enc) dbuf) w of
           Inl x \<Rightarrow> Inl x
         | Inr (w', n, None) \<Rightarrow> Inr (w', length p, None)
         | Inr (w', n, Some e) \<Rightarrow> Inr (w', countWritten dbuf n 0 0, Some e))"

section \<open>gomail: the line writers\<close>

definition maxLineLen :: nat where
  "maxLineLen = 78"

text \<open>
  Both line writers hold the downstream writer and \<open>lineLen\<close>. The downstream writer's
  results are ignored by the source, so its state is the list of the slices it was
  given, one per call of \<open>w.w.Write\<close>, in order.
\<close>

record lineWriter =
  written :: "byte list list"
  lineLen :: nat

definition newLineWriter :: lineWriter where
  "newLineWriter = \<lparr>written = [], lineLen = 0\<rparr>"

definition emit :: "byte list \<Rightarrow> lineWriter \<Rightarrow> lineWriter" where
  "emit bs w = w\<lparr>written := written w @ [bs]\<rparr>"

text \<open>
  \<open>base64LineWriter.Write\<close>. The slice expression \<open>p[:maxLineLen-w.lineLen]\<close> has a
  negative bound when \<open>lineLen\<close> is above 78, where Go panics.
\<close>

function base64Write_loop :: "lineWriter \<Rightarrow> byte list \<Rightarrow> nat \<Rightarrow> panic + (lineWriter \<times> nat \<times> error option)" where
  "base64Write_loop w p n =
     (if maxLineLen < length p + lineLen w then
        (if maxLineLen < lineLen w then Inl SliceBoundsOutOfRange
         else
           (let k = maxLineLen - lineLen w;
                w1 = emit (take k p) w;
                w2 = emit [CR, LF] w1
            in base64Write_loop (w2\<lparr>lineLen := 0\<rparr>) (drop k p) (n + k)))
      else
        (let w1 = emit p w
         in Inr (w1\<lparr>lineLen := lineLen w1 + length p\<rparr>, n + length p, None)))"
  by pat_completeness auto
termination
  by (relation "measure (\<lambda>(w, p, n). 2 * length p + (if lineLen w = 0 then 0 else 1))")
     (auto simp: emit_def maxLineLen_def)

definition base64Write :: "lineWriter \<Rightarrow> byte list \<Rightarrow> panic + (lineWriter \<times> nat \<times> error option)" where
  "base64Write w p = base64Write_loop w p 0"

text \<open>
  \<open>qpLineWriter.Write\<close>. \<open>toWrite\<close> is the cut point of the soft line break; the two
  index expressions panic when the index is negative (they are below \<open>len(p)\<close> on this
  path, where \<open>len(p) \<ge> maxLineLen-lineLen\<close>).
\<close>

definition toWrite :: "nat \<Rightarrow> byte list \<Rightarrow> panic + nat" where
  "toWrite ll p =
     (if ll + 2 \<le> maxLineLen \<and> p ! (maxLineLen - ll - 2) = EQ then Inr (maxLineLen - ll - 2)
      else if maxLineLen < ll + 1 then Inl IndexOutOfRange
      else if p ! (maxLineLen - ll - 1) = EQ then Inr (maxLineLen - ll - 1)
      else Inr (maxLineLen - ll))"

text \<open>
  The test \<open>i != -1 && (i != maxLineLen-w.lineLen+1 || p[i-1] == '\r')\<close> on the result
  of \<open>bytes.IndexAny\<close>: \<open>Inr (Some i)\<close> when the newline at \<open>i\<close> ends the line,
  \<open>Inr None\<close> when a soft break is needed, a panic when \<open>p[i-1]\<close> is out of range.
\<close>

definition newlineBeforeLimit :: "nat \<Rightarrow> byte list \<Rightarrow> nat option \<Rightarrow> panic + nat option" where
  "newlineBeforeLimit ll p io =
     (case io of
        None \<Rightarrow> Inr None
      | Some i \<Rightarrow>
          if i + ll \<noteq> maxLineLen + 1 then Inr (Some i)
          else if i = 0 \<or> length p \<le> i - 1 then Inl IndexOutOfRange
          else if p ! (i - 1) = CR then Inr (Some i)
          else Inr None)"

function qpWrite_loop :: "lineWriter \<Rightarrow> slice \<Rightarrow> nat \<Rightarrow> panic + (lineWriter \<times> nat \<times> error option)" where
  "qpWrite_loop w (p, spare) n =
     (if length p = 0 then Inr (w, n, None)
      else if length p + lineLen w < maxLineLen then
        (let w1 = emit p w
         in Inr (w1\<lparr>lineLen := lineLen w1 + length p\<rparr>, n + length p, None))
      else if maxLineLen + 2 < lineLen w
              \<or> length p + length spare < maxLineLen + 2 - lineLen w
      then Inl SliceBoundsOutOfRange
      else
        (case newlineBeforeLimit (lineLen w) p
                (IndexByte (take (maxLineLen + 2 - lineLen w) (p @ spare)) LF) of
           Inl x \<Rightarrow> Inl x
         | Inr (Some i) \<Rightarrow>
             (if length p < i + 1 then Inl SliceBoundsOutOfRange
              else qpWrite_loop ((emit (take (i + 1) p) w)\<lparr>lineLen := 0\<rparr>)
                     (drop (i + 1) p, spare) (n + (i + 1)))
         | Inr None \<Rightarrow>
             (case toWrite (lineLen w) p of
                Inl x \<Rightarrow> Inl x
              | Inr t \<Rightarrow>
                  qpWrite_loop ((emit [EQ, CR, LF] (emit (take t p) w))\<lparr>lineLen := 0\<rparr>)
                    (drop t p, spare) (n + t))))"
  by pat_completeness auto
termination
  by (relation "measure (\<lambda>(w, (p, spare), n). 2 * length p + (if lineLen w = 0 then 0 else 1))")
     (auto simp: emit_def maxLineLen_def toWrite_def split: if_splits)

definition qpWrite :: "lineWriter \<Rightarrow> slice \<Rightarrow> panic + (lineWriter \<times> nat \<times> error option)" where
  "qpWrite w p = qpWrite_loop w p 0"

text \<open>The bytes a line writer has passed downstream.\<close>

definition stream :: "lineWriter \<Rightarrow> byte list" where
  "stream w = concat (written w)"

section \<open>Standard library: ASCII upper case and base64\<close>

text \<open>
  \<open>strings.ToUpper\<close>, \<open>encoding/base64\<close> and \<open>regexp\<close> belong to the Go standard
  library, not to the repository. They are modelled from their documentation:
  \<open>ToUpper\<close> on the ASCII letters (the only bytes that can make \<open>ToUpper(x)\<close> equal to
  \<open>Q\<close>, \<open>B\<close> or \<open>UTF-8\<close>), and \<open>base64.StdEncoding\<close> as the padded encoding of
  RFC 4648 over its standard alphabet.
\<close>

definition toUpperByte :: "byte \<Rightarrow> byte" where
  "toUpperByte c = (if 97 \<le> c \<and> c \<le> 122 then c - 32 else c)"

definition ToUpper :: "byte list \<Rightarrow> byte list" where
  "ToUpper s = map toUpperByte s"

definition encodeStd :: "byte list" where
  "encodeStd = bytes ''ABCDEFGHIJKLMNOPQRSTUVWXYZabcdefghijklmnopqrstuvwxyz0123456789+/''"

definition b64char :: "nat \<Rightarrow> byte" where
  "b64char k = encodeStd ! k"

fun EncodeToString :: "byte list \<Rightarrow> byte list" where
  "EncodeToString [] = []"
| "EncodeToString [a] =
     [b64char (unat a div 4), b64char ((unat a mod 4) * 16), EQ, EQ]"
| "EncodeToString [a, b] =
     [b64char (unat a div 4), b64char ((unat a mod 4) * 16 + unat b div 16),
      b64char ((unat b mod 16) * 4), EQ]"
| "EncodeToString (a # b # c # rest) =
     [b64char (unat a div 4), b64char ((unat a mod 4) * 16 + unat b div 16),
      b64char ((unat b mod 16) * 4 + unat c div 64), b64char (unat c mod 64)]
     @ EncodeToString rest"

definition EncodedLen :: "nat \<Rightarrow> nat" where
  "EncodedLen n = (n + 2) div 3 * 4"

definition b64index :: "byte \<Rightarrow> nat option" where
  "b64index c =
     (if 65 \<le> c \<and> c \<le> 90 then Some (unat c - 65)
      else if 97 \<le> c \<and> c \<le> 122 then Some (unat c - 97 + 26)
      else if 48 \<le> c \<and> c \<le> 57 then Some (unat c - 48 + 52)
      else if c = 43 then Some 62
      else if c = 47 then Some 63
      else None)"

text \<open>
  Decoding of the text without its \<open>\r\<close> and \<open>\n\<close> bytes, which \<open>DecodeString\<close>
  ignores; \<open>None\<close> is \<open>CorruptInputError\<close>.
\<close>

fun b64groups :: "byte list \<Rightarrow> byte list option" where
  "b64groups [] = Some []"
| "b64groups (a # b # c # d # rest) =
     (case (b64index a, b64index b) of
        (Some x, Some y) \<Rightarrow>
          (if c = EQ then
             (if d = EQ \<and> rest = [] then Some [of_nat (x * 4 + y div 16)] else None)
           else
             (case b64index c of
                None \<Rightarrow> None
              | Some z \<Rightarrow>
                  (if d = EQ then
                     (if rest = []
                      then Some [of_nat (x * 4 + y div 16), of_nat ((y mod 16) * 16 + z div 4)]
                      else None)
                   else
                     (case b64index d of
                        None \<Rightarrow> None
                      | Some v \<Rightarrow>
                          map_option
                            (\<lambda>r. [of_nat (x * 4 + y div 16), of_nat ((y mod 16) * 16 + z div 4),
                                  of_nat ((z mod 4) * 64 + v)] @ r)
                            (b64groups rest)))))
      | _ \<Rightarrow> None)"
| "b64groups _ = None"

definition DecodeString :: "byte list \<Rightarrow> byte list option" where
  "DecodeString s = b64groups (filter (\<lambda>c. c \<noteq> CR \<and> c \<noteq> LF) s)"

section \<open>quotedprintable: the RFC 2047 header encoder\<close>

abbreviation QM :: byte where "QM \<equiv> 63"
abbreviation UNDERSCORE :: byte where "UNDERSCORE \<equiv> 95"

definition Q :: "byte list" where "Q = bytes ''Q''"
definition B :: "byte list" where "B = bytes ''B''"

record HeaderEncoder =
  charset :: "byte list"
  encoding :: "byte list"
  splitWords :: bool

definition maxEncodedWordLen :: nat where
  "maxEncodedWordLen = 75"

definition StdHeaderEncoder :: HeaderEncoder where
  "StdHeaderEncoder = \<lparr>charset = bytes ''UTF-8'', encoding = Q, splitWords = True\<rparr>"

definition NewHeaderEncoder :: "byte list \<Rightarrow> byte list \<Rightarrow> error + HeaderEncoder" where
  "NewHeaderEncoder cs enc =
     (if ToUpper enc \<noteq> Q \<and> ToUpper enc \<noteq> B then Inl (EncodingNotSupported enc)
      else Inr \<lparr>charset = cs, encoding = enc, splitWords = (ToUpper cs = bytes ''UTF-8'')\<rparr>)"

definition needsEncoding :: "byte list \<Rightarrow> bool" where
  "needsEncoding s = (\<exists>i < length s. \<not> isVchar (s ! i) \<and> \<not> isWSP (s ! i))"

text \<open>The buffer operations return the new buffer; \<open>openWord\<close> also returns its count.\<close>

definition openWord :: "HeaderEncoder \<Rightarrow> byte list \<Rightarrow> nat \<times> byte list" where
  "openWord e buf =
     (4 + length (charset e) + length (encoding e),
      buf @ [EQ, QM] @ charset e @ [QM] @ encoding e @ [QM])"

definition closeWord :: "byte list \<Rightarrow> byte list" where
  "closeWord buf = buf @ [QM, EQ]"

definition splitWord :: "HeaderEncoder \<Rightarrow> byte list \<Rightarrow> nat \<times> byte list" where
  "splitWord e buf = openWord e (closeWord buf @ [CR, LF, SP])"

definition RuneStart :: "byte \<Rightarrow> bool" where
  "RuneStart b = (b AND 192 \<noteq> 128)"

function getRuneSize_loop :: "byte list \<Rightarrow> nat \<Rightarrow> nat \<Rightarrow> nat" where
  "getRuneSize_loop s i runeSize =
     (if i + runeSize < length s \<and> \<not> RuneStart (s ! (i + runeSize))
      then getRuneSize_loop s i (runeSize + 1) else runeSize)"
  by pat_completeness auto
termination
  by (relation "measure (\<lambda>(s, i, runeSize). length s - (i + runeSize))") auto

definition getRuneSize :: "byte list \<Rightarrow> nat \<Rightarrow> nat" where
  "getRuneSize s i = getRuneSize_loop s i 1"

definition qSafe :: "byte \<Rightarrow> bool" where
  "qSafe b = (isVchar b \<and> b \<noteq> EQ \<and> b \<noteq> QM \<and> b \<noteq> UNDERSCORE)"

definition writeQ :: "byte list \<Rightarrow> byte \<Rightarrow> byte list" where
  "writeQ buf b =
     (if b = SP then buf @ [UNDERSCORE]
      else if qSafe b then buf @ [b]
      else buf @ encodeByte b)"

fun writeQString :: "byte list \<Rightarrow> byte list \<Rightarrow> byte list" where
  "writeQString buf [] = buf"
| "writeQString buf (b # s) = writeQString (writeQ buf b) s"

text \<open>The loop of the Q branch with word splitting.\<close>

function encodeQ_loop :: "HeaderEncoder \<Rightarrow> byte list \<Rightarrow> nat \<Rightarrow> nat \<Rightarrow> byte list \<Rightarrow> byte list" where
  "encodeQ_loop e s i n buf =
     (if i < length s then
        (let b = s ! i;
             (encLen, runeSize) =
               (if b = SP \<or> qSafe b then (1, 1)
                else (3 * getRuneSize s i, getRuneSize s i));
             (n1, buf1) =
               (if maxEncodedWordLen - 2 < n + encLen then splitWord e buf else (n, buf))
         in encodeQ_loop e s (i + runeSize) (n1 + encLen)
              (writeQString buf1 (take runeSize (drop i s))))
      else buf)"
  by pat_completeness auto
termination
proof (relation "measure (\<lambda>(e, s, i, n, buf). length s - i)")
  have ge: "r \<le> getRuneSize_loop s i r" for s i r
  proof (induction s i r rule: getRuneSize_loop.induct)
    case (1 s i r)
    show ?case
      using 1 by (subst getRuneSize_loop.simps) (auto simp del: getRuneSize_loop.simps)
  qed
  have pos: "0 < getRuneSize s i" for s i
    using ge [of 1 s i] by (simp add: getRuneSize_def)
  fix e :: HeaderEncoder and s :: "byte list" and i n :: nat and buf :: "byte list"
    and b :: byte and x :: "nat \<times> nat" and encLen runeSize :: nat
    and xa :: "nat \<times> byte list" and n1 :: nat and buf1 :: "byte list"
  assume "i < length s" "b = s ! i"
    "x = (if b = SP \<or> qSafe b then (1, 1) else (3 * getRuneSize s i, getRuneSize s i))"
    "(encLen, runeSize) = x"
  then have "0 < runeSize"
    using pos [of s i] by (auto split: if_splits)
  with \<open>i < length s\<close>
  show "((e, s, i + runeSize, n1 + encLen, writeQString buf1 (take runeSize (drop i s))),
         e, s, i, n, buf) \<in> measure (\<lambda>(e, s, i, n, buf). length s - i)"
    by simp
qed simp

text \<open>
  The loop of the B branch with word splitting; \<open>hdr\<close> is \<open>buf.Len()\<close> after
  \<open>openWord\<close>, so that \<open>EncodedLen(k) <= maxLen\<close> reads
  \<open>EncodedLen k + hdr + 2 \<le> maxEncodedWordLen\<close>.
\<close>

function encodeB_loop ::
  "HeaderEncoder \<Rightarrow> byte list \<Rightarrow> nat \<Rightarrow> nat \<Rightarrow> nat \<Rightarrow> nat \<Rightarrow> byte list \<Rightarrow> byte list" where
  "encodeB_loop e s hdr i n last' buf =
     (if i < length s then
        (let runeSize = getRuneSize s i in
         if EncodedLen (n + runeSize) + hdr + 2 \<le> maxEncodedWordLen
         then encodeB_loop e s hdr (i + runeSize) (n + runeSize) last' buf
         else encodeB_loop e s hdr (i + runeSize) runeSize i
                (snd (splitWord e (buf @ EncodeToString (take (i - last') (drop last' s))))))
      else buf @ EncodeToString (drop last' s))"
  by pat_completeness auto
termination
proof (relation "measure (\<lambda>(e, s, hdr, i, n, last', buf). length s - i)")
  have ge: "r \<le> getRuneSize_loop s i r" for s i r
  proof (induction s i r rule: getRuneSize_loop.induct)
    case (1 s i r)
    show ?case
      using 1 by (subst getRuneSize_loop.simps) (auto simp del: getRuneSize_loop.simps)
  qed
  have pos: "0 < getRuneSize s i" for s i
    using ge [of 1 s i] by (simp add: getRuneSize_def)
  have dec: "i < length s \<Longrightarrow> length s - (i + getRuneSize s i) < length s - i" for s i
    using pos [of s i] by simp
  show "\<And>e s hdr i n last' buf x.
       i < length s \<Longrightarrow> x = getRuneSize s i \<Longrightarrow>
       EncodedLen (n + x) + hdr + 2 \<le> maxEncodedWordLen \<Longrightarrow>
       ((e, s, hdr, i + x, n + x, last', buf), e, s, hdr, i, n, last', buf)
       \<in> measure (\<lambda>(e, s, hdr, i, n, last', buf). length s - i)"
    by (simp add: dec)
  show "\<And>e s hdr i n last' buf x.
       i < length s \<Longrightarrow> x = getRuneSize s i \<Longrightarrow>
       \<not> EncodedLen (n + x) + hdr + 2 \<le> maxEncodedWordLen \<Longrightarrow>
       ((e, s, hdr, i + x, x, i,
         snd (splitWord e (buf @ EncodeToString (take (i - last') (drop last' s))))),
        e, s, hdr, i, n, last', buf)
       \<in> measure (\<lambda>(e, s, hdr, i, n, last', buf). length s - i)"
    by (simp add: dec)
qed simp

definition encodeWord :: "HeaderEncoder \<Rightarrow> byte list \<Rightarrow> byte list" where
  "encodeWord e s =
     (let (hdr, buf) = openWord e [] in
      closeWord
        (if ToUpper (encoding e) = B then
           (if \<not> splitWords e \<or> EncodedLen (length s) + hdr + 2 \<le> maxEncodedWordLen
            then buf @ EncodeToString s
            else encodeB_loop e s hdr 0 0 0 buf)
         else
           (if \<not> splitWords e then writeQString buf s
            else encodeQ_loop e s 0 (length buf) buf)))"

definition EncodeHeader :: "HeaderEncoder \<Rightarrow> byte list \<Rightarrow> byte list" where
  "EncodeHeader e s = (if \<not> needsEncoding s then s else encodeWord e s)"

section \<open>quotedprintable: the RFC 2047 header decoder\<close>

text \<open>\<open>qDecode\<close> returns the decoded part \<open>dec[:n]\<close> and the error.\<close>

function qDecode_loop :: "byte list \<Rightarrow> nat \<Rightarrow> byte list \<Rightarrow> byte list \<times> error option" where
  "qDecode_loop s i dec =
     (if i < length s then
        (let c = s ! i in
         if c = UNDERSCORE then qDecode_loop s (i + 1) (dec @ [SP])
         else if c = EQ then
           (if length s \<le> i + 2 then (dec, Some ErrUnexpectedEOF)
            else (case readHexByte (drop (i + 1) s) of
                    Inl e \<Rightarrow> (dec, Some e)
                  | Inr b \<Rightarrow> qDecode_loop s (i + 2 + 1) (dec @ [b])))
         else if isVchar c \<or> c = SP \<or> c = LF \<or> c = CR \<or> c = TAB then
           qDecode_loop s (i + 1) (dec @ [c])
         else (dec, Some (InvalidUnescapedByteQ c)))
      else (dec, None))"
  by pat_completeness auto
termination
  by (relation "measure (\<lambda>(s, i, dec). length s - i)") auto

definition qDecode :: "byte list \<Rightarrow> byte list \<times> error option" where
  "qDecode s = qDecode_loop s 0 []"

text \<open>\<open>strings.Split(s, "?")\<close>.\<close>

fun Split :: "byte list \<Rightarrow> byte \<Rightarrow> byte list list" where
  "Split [] c = [[]]"
| "Split (x # xs) c =
     (if x = c then [] # Split xs c
      else (case Split xs c of f # fs \<Rightarrow> (x # f) # fs | [] \<Rightarrow> [[x]]))"

definition decodeWord :: "byte list \<Rightarrow> byte list \<times> byte list \<times> error option" where
  "decodeWord s =
     (case Split s QM of
        [f0, f1, f2, f3, f4] \<Rightarrow>
          (if f0 \<noteq> [EQ] \<or> f4 \<noteq> [EQ] \<or> length f2 \<noteq> 1 then (s, [], None)
           else if ToUpper f2 = B then
             (case DecodeString f3 of
                None \<Rightarrow> ([], f1, Some Base64Corrupt)
              | Some dec \<Rightarrow> (dec, f1, None))
           else if ToUpper f2 = Q then
             (case qDecode f3 of
                (dec, Some e) \<Rightarrow> (dec, f1, Some e)
              | (dec, None) \<Rightarrow> (dec, f1, None))
           else ([], f1, Some (EncodingNotSupported f2)))
      | _ \<Rightarrow> (s, [], None))"

text \<open>
  The regular expression \<open>^=\?[\w\-]+\?[bBqQ]\?[^?]+\?=\<close>, matched at the start of
  the text. Each repetition is followed by a literal \<open>?\<close> that it cannot contain, so the
  match takes the longest run of each class; \<open>FindString\<close> returns the matched text, or
  the empty string.
\<close>

definition wordChar :: "byte \<Rightarrow> bool" where
  "wordChar c = ((48 \<le> c \<and> c \<le> 57) \<or> (65 \<le> c \<and> c \<le> 90) \<or> (97 \<le> c \<and> c \<le> 122)
                 \<or> c = UNDERSCORE \<or> c = 45)"

definition rfc2047_FindString :: "byte list \<Rightarrow> byte list" where
  "rfc2047_FindString h =
     (case h of
        e # q # r1 \<Rightarrow>
          (let cs = takeWhile wordChar r1 in
           if e \<noteq> EQ \<or> q \<noteq> QM \<or> cs = [] then []
           else
             (case dropWhile wordChar r1 of
                q1 # enc # q2 # r3 \<Rightarrow>
                  (let pl = takeWhile (\<lambda>c. c \<noteq> QM) r3 in
                   if q1 \<noteq> QM \<or> enc \<notin> {98, 66, 113, 81} \<or> q2 \<noteq> QM \<or> pl = [] then []
                   else
                     (case dropWhile (\<lambda>c. c \<noteq> QM) r3 of
                        q3 # e2 # _ \<Rightarrow>
                          (if q3 = QM \<and> e2 = EQ
                           then [EQ, QM] @ cs @ [QM, enc, QM] @ pl @ [QM, EQ] else [])
                      | _ \<Rightarrow> []))
              | _ \<Rightarrow> []))
      | _ \<Rightarrow> [])"

text \<open>
  \<open>DecodeHeader\<close>: the outer loop, and the inner loop over adjacent encoded-words. The
  result is \<open>(text, charset, err)\<close>; \<open>header[len(word):]\<close> panics on a word longer than
  the text.
\<close>

function DecodeHeader_outer ::
    "byte list \<Rightarrow> byte list \<Rightarrow> byte list \<Rightarrow> panic + (byte list \<times> byte list \<times> error option)"
  and DecodeHeader_words ::
    "byte list \<Rightarrow> byte list \<Rightarrow> byte list \<Rightarrow> byte list
       \<Rightarrow> panic + (byte list \<times> byte list \<times> error option)" where
  "DecodeHeader_outer buf cs header =
     (case IndexByte header EQ of
        None \<Rightarrow> Inr (buf @ header, cs, None)
      | Some i \<Rightarrow>
          (let buf1 = (if 0 < i then buf @ take i header else buf);
               header1 = (if 0 < i then drop i header else header);
               word = rfc2047_FindString header1
           in if word = [] then DecodeHeader_outer (buf1 @ [EQ]) cs (drop 1 header1)
              else DecodeHeader_words buf1 cs header1 word))"
| "DecodeHeader_words buf cs header word =
     (case decodeWord word of
        (dec, wordCharset, Some e) \<Rightarrow>
          (if length header < length word then Inl SliceBoundsOutOfRange
           else DecodeHeader_outer (buf @ word) cs (drop (length word) header))
      | (dec, wordCharset, None) \<Rightarrow>
          (if cs \<noteq> [] \<and> cs \<noteq> wordCharset
           then Inr ([], [], Some (MultipleCharsets cs wordCharset))
           else if length header < length word then Inl SliceBoundsOutOfRange
           else
             (let cs1 = (if cs = [] then wordCharset else cs);
                  header1 = drop (length word) header;
                  j = length (takeWhile (\<lambda>c. isWSP c \<or> isNewline c) header1)
              in if j = 0 then DecodeHeader_outer (buf @ dec) cs1 header1
                 else
                   (let word1 = rfc2047_FindString (drop j header1) in
                    if word1 = [] then DecodeHeader_outer (buf @ dec) cs1 header1
                    else DecodeHeader_words (buf @ dec) cs1 (drop j header1) word1))))"
  by pat_completeness auto
termination
proof (relation "measure (\<lambda>x. case x of
          Inl (buf, cs, header) \<Rightarrow> 2 * length header + 1
        | Inr (buf, cs, header, word) \<Rightarrow> 2 * length header + (if word = [] then 2 else 0))")
  have idx: "IndexByte h c = Some i \<Longrightarrow> i < length h" for h c i
    by (induction h arbitrary: i) (auto split: if_splits)
  show "\<And>buf cs header x2 x xa xb.
       IndexByte header EQ = Some x2 \<Longrightarrow>
       x = (if 0 < x2 then buf @ take x2 header else buf) \<Longrightarrow>
       xa = (if 0 < x2 then drop x2 header else header) \<Longrightarrow>
       xb = rfc2047_FindString xa \<Longrightarrow> xb = [] \<Longrightarrow>
       (Inl (x @ [EQ], cs, drop 1 xa), Inl (buf, cs, header))
       \<in> measure (\<lambda>x. case x of
            Inl (buf, cs, header) \<Rightarrow> 2 * length header + 1
          | Inr (buf, cs, header, word) \<Rightarrow> 2 * length header + (if word = [] then 2 else 0))"
    using idx by (fastforce split: if_splits)
qed (auto simp: neq_Nil_conv split: if_splits)

definition DecodeHeader :: "byte list \<Rightarrow> panic + (byte list \<times> byte list \<times> error option)" where
  "DecodeHeader header = DecodeHeader_outer [] [] header"

section \<open>gomail: the message and its export\<close>

definition QuotedPrintable :: "byte list" where
  "QuotedPrintable = bytes ''quoted-printable''"

definition Base64 :: "byte list" where
  "Base64 = bytes ''base64''"

type_synonym header = "byte list \<rightharpoonup> byte list list"

record part =
  contentType :: "byte list"
  body :: "byte list"

record attachment =
  name :: "byte list"
  content :: "byte list"

record Message =
  msgHeader :: header
  msgParts :: "part list"
  msgAttachments :: "attachment list"
  msgCharset :: "byte list"
  msgEncoding :: "byte list"

definition isMixed :: "Message \<Rightarrow> bool" where
  "isMixed msg =
     ((0 < length (msgParts msg) \<and> 0 < length (msgAttachments msg))
      \<or> 1 < length (msgAttachments msg))"

definition isAlternative :: "Message \<Rightarrow> bool" where
  "isAlternative msg = (1 < length (msgParts msg))"

text \<open>
  What the export takes from outside the repository: the boundary of the multipart
  writer created at each depth (\<open>multipart.NewWriter\<close> draws it at random), the MIME type
  that \<open>mime.TypeByExtension(filepath.Ext(name))\<close> gives an attachment name, and the
  formatted current time.
\<close>

record env =
  boundary :: "nat \<Rightarrow> byte list"
  mimeTypeOf :: "byte list \<Rightarrow> byte list"
  dateNow :: "byte list"

text \<open>
  The body buffer receives the output of the \<open>mime/multipart\<close> writers, which is not
  code of the repository: it is kept as the sequence of the calls that produce it.
  \<open>CreatePart d h\<close> is \<open>writers[d].CreatePart(h)\<close>, \<open>CloseWriter d\<close> is
  \<open>writers[d].Close()\<close>, and \<open>Body bs\<close> is a body written to the current part (or to the
  buffer itself at depth 0).
\<close>

datatype event =
    CreatePart nat "(byte list \<times> byte list list) list"
  | Body "byte list"
  | CloseWriter nat

record messageWriter =
  mwHeader :: header
  buf :: "event list"
  depth :: nat

definition newMessageWriter :: "env \<Rightarrow> Message \<Rightarrow> messageWriter" where
  "newMessageWriter ev msg =
     (let h0 = msgHeader msg;
          h1 = (if h0 (bytes ''Mime-Version'') = None
                then h0(bytes ''Mime-Version'' \<mapsto> [bytes ''1.0'']) else h0);
          h2 = (if h1 (bytes ''Date'') = None
                then h1(bytes ''Date'' \<mapsto> [dateNow ev]) else h1)
      in \<lparr>mwHeader = h2, buf = [], depth = 0\<rparr>)"

text \<open>
  \<open>createPart\<close> indexes \<open>writers[depth-1]\<close> and \<open>openMultipart\<close> indexes
  \<open>writers[depth]\<close> in an array of two writers.
\<close>

definition createPart :: "(byte list \<times> byte list list) list \<Rightarrow> messageWriter \<Rightarrow> panic + messageWriter" where
  "createPart h w =
     (if depth w = 0 \<or> 2 < depth w then Inl IndexOutOfRange
      else Inr (w\<lparr>buf := buf w @ [CreatePart (depth w - 1) h]\<rparr>))"

definition openMultipart :: "env \<Rightarrow> byte list \<Rightarrow> messageWriter \<Rightarrow> panic + messageWriter" where
  "openMultipart ev mimeType w =
     (if 2 \<le> depth w then Inl IndexOutOfRange
      else
        (let ct = bytes ''multipart/'' @ mimeType @ bytes ''; boundary='' @ boundary ev (depth w) in
         case (if depth w = 0
               then Inr (w\<lparr>mwHeader := (mwHeader w)(bytes ''Content-Type'' \<mapsto> [ct])\<rparr>)
               else createPart [(bytes ''Content-Type'', [ct])] w) of
           Inl x \<Rightarrow> Inl x
         | Inr w1 \<Rightarrow> Inr (w1\<lparr>depth := depth w1 + 1\<rparr>)))"

definition closeMultipart :: "messageWriter \<Rightarrow> messageWriter" where
  "closeMultipart w =
     (if 0 < depth w
      then w\<lparr>buf := buf w @ [CloseWriter (depth w - 1)], depth := depth w - 1\<rparr>
      else w)"

definition writeHeader :: "(byte list \<times> byte list list) list \<Rightarrow> messageWriter \<Rightarrow> panic + messageWriter" where
  "writeHeader h w =
     (if depth w = 0
      then Inr (w\<lparr>mwHeader := fold (\<lambda>(field, v) m. m(field \<mapsto> v)) h (mwHeader w)\<rparr>)
      else createPart h w)"

text \<open>
  \<open>writeBody\<close>. The base64 stream encoder of the standard library hands the encoded
  text to the line writer in pieces; the line writer breaks at fixed columns whatever
  the pieces are, so the encoded text is written at once here. The quoted-printable
  encoder makes one \<open>Write\<close> on a fresh line writer with the whole body.
\<close>

definition writeBody :: "byte list \<Rightarrow> byte list \<Rightarrow> messageWriter \<Rightarrow> panic + (error + messageWriter)" where
  "writeBody bs enc w =
     (case (if enc = Base64 then base64Write newLineWriter (EncodeToString bs)
            else encoder_Write (\<lambda>p lw. qpWrite lw p) newLineWriter bs) of
        Inl x \<Rightarrow> Inl x
      | Inr (lw, n, Some e) \<Rightarrow> Inr (Inl e)
      | Inr (lw, n, None) \<Rightarrow> Inr (Inr (w\<lparr>buf := buf w @ [Body (stream lw)]\<rparr>)))"

definition partHeader :: "Message \<Rightarrow> part \<Rightarrow> (byte list \<times> byte list list) list" where
  "partHeader msg p =
     [(bytes ''Content-Type'', [contentType p @ bytes ''; charset='' @ msgCharset msg]),
      (bytes ''Content-Transfer-Encoding'',
       [if msgEncoding msg = Base64 then Base64 else QuotedPrintable])]"

definition attachmentHeader :: "env \<Rightarrow> attachment \<Rightarrow> (byte list \<times> byte list list) list" where
  "attachmentHeader ev a =
     (let mimeType = (if mimeTypeOf ev (name a) = [] then bytes ''application/octet-stream''
                      else mimeTypeOf ev (name a))
      in [(bytes ''Content-Type'', [mimeType @ bytes ''; name=\"'' @ name a @ bytes ''\"'']),
          (bytes ''Content-Disposition'',
           [bytes ''attachment; filename=\"'' @ name a @ bytes ''\"'']),
          (bytes ''Content-Transfer-Encoding'', [Base64])])"

text \<open>The two loops of \<open>Export\<close>; an error of \<open>writeBody\<close> ends the export.\<close>

fun writeParts :: "Message \<Rightarrow> part list \<Rightarrow> messageWriter \<Rightarrow> panic + (error + messageWriter)" where
  "writeParts msg [] w = Inr (Inr w)"
| "writeParts msg (p # ps) w =
     (case writeHeader (partHeader msg p) w of
        Inl x \<Rightarrow> Inl x
      | Inr w1 \<Rightarrow>
          (case writeBody (body p) (msgEncoding msg) w1 of
             Inl x \<Rightarrow> Inl x
           | Inr (Inl e) \<Rightarrow> Inr (Inl e)
           | Inr (Inr w2) \<Rightarrow> writeParts msg ps w2))"

fun writeAttachments :: "env \<Rightarrow> attachment list \<Rightarrow> messageWriter \<Rightarrow> panic + (error + messageWriter)" where
  "writeAttachments ev [] w = Inr (Inr w)"
| "writeAttachments ev (a # as) w =
     (case writeHeader (attachmentHeader ev a) w of
        Inl x \<Rightarrow> Inl x
      | Inr w1 \<Rightarrow>
          (case writeBody (content a) Base64 w1 of
             Inl x \<Rightarrow> Inl x
           | Inr (Inl e) \<Rightarrow> Inr (Inl e)
           | Inr (Inr w2) \<Rightarrow> writeAttachments ev as w2))"

definition openIf :: "bool \<Rightarrow> env \<Rightarrow> byte list \<Rightarrow> messageWriter \<Rightarrow> panic + messageWriter" where
  "openIf c ev mimeType w = (if c then openMultipart ev mimeType w else Inr w)"

definition Export :: "env \<Rightarrow> Message \<Rightarrow> panic + (error + messageWriter)" where
  "Export ev msg =
     (case openIf (isMixed msg) ev (bytes ''mixed'') (newMessageWriter ev msg) of
        Inl x \<Rightarrow> Inl x
      | Inr w1 \<Rightarrow>
     (case openIf (isAlternative msg) ev (bytes ''alternative'') w1 of
        Inl x \<Rightarrow> Inl x
      | Inr w2 \<Rightarrow>
     (case writeParts msg (msgParts msg) w2 of
        Inl x \<Rightarrow> Inl x
      | Inr (Inl e) \<Rightarrow> Inr (Inl e)
      | Inr (Inr w3) \<Rightarrow>
     (case writeAttachments ev (msgAttachments msg)
             (if isAlternative msg then closeMultipart w3 else w3) of
        Inl x \<Rightarrow> Inl x
      | Inr (Inl e) \<Rightarrow> Inr (Inl e)
      | Inr (Inr w4) \<Rightarrow> Inr (Inr (if isMixed msg then closeMultipart w4 else w4))))))"

section \<open>Notions used in the statements\<close>





text \<open>
  An encoded unit is what \<open>Encode\<close> writes for one input byte: one literal byte other
  than \<open>=\<close>, or the three bytes of an escape. \<open>fit n us\<close> counts the leading units of
  \<open>us\<close> that lie whole within the first \<open>n\<close> bytes of their concatenation.
\<close>

definition isUnit :: "byte list \<Rightarrow> bool" where
  "isUnit u = ((\<exists>c. u = [c] \<and> c \<noteq> EQ) \<or> (\<exists>h l. u = [EQ, h, l]))"

fun fit :: "nat \<Rightarrow> byte list list \<Rightarrow> nat" where
  "fit n [] = 0"
| "fit n (u # us) = (if length u \<le> n then Suc (fit (n - length u) us) else 0)"

text \<open>
  Events of the body buffer: no multipart writer is closed among them; all of them are
  bodies; and the \<open>Content-Type\<close> value that \<open>openMultipart\<close> builds at a depth.
\<close>

definition noClose :: "event list \<Rightarrow> bool" where
  "noClose evs = list_all (\<lambda>e. case e of CloseWriter d \<Rightarrow> False | _ \<Rightarrow> True) evs"

definition onlyBodies :: "event list \<Rightarrow> bool" where
  "onlyBodies evs = list_all (\<lambda>e. case e of Body b \<Rightarrow> True | _ \<Rightarrow> False) evs"

definition multipartType :: "env \<Rightarrow> byte list \<Rightarrow> nat \<Rightarrow> byte list" where
  "multipartType ev mimeType d =
     bytes ''multipart/'' @ mimeType @ bytes ''; boundary='' @ boundary ev d"

text \<open>
  The message of the test \<open>TestMultipleAttachment\<close>: one plain-text part and two
  attached files, with the stubbed clock and file reader of the tests.
\<close>

definition testEnv :: env where
  "testEnv =
     \<lparr>boundary = (\<lambda>d. if d = 0 then bytes ''b0'' else bytes ''b1''),
      mimeTypeOf = (\<lambda>n. if n = bytes ''test.pdf'' then bytes ''application/pdf''
                         else if n = bytes ''test.zip'' then bytes ''application/zip'' else []),
      dateNow = bytes ''25 Jun 14 17:46 UTC''\<rparr>"

definition testPart :: part where
  "testPart = \<lparr>contentType = bytes ''text/plain'', body = bytes ''Test''\<rparr>"

definition testPdf :: attachment where
  "testPdf = \<lparr>name = bytes ''test.pdf'', content = bytes ''Content of test.pdf''\<rparr>"

definition testZip :: attachment where
  "testZip = \<lparr>name = bytes ''test.zip'', content = bytes ''Content of test.zip''\<rparr>"

definition testMessage :: Message where
  "testMessage =
     \<lparr>msgHeader = Map.empty, msgParts = [testPart], msgAttachments = [testPdf, testZip],
      msgCharset = bytes ''UTF-8'', msgEncoding = QuotedPrintable\<rparr>"

text \<open>
  The lines of an output: \<open>crlfLines\<close> splits a text at every CRLF and \<open>lfLines\<close> at
  every LF, as \<open>strings.Split\<close> does, so that the last element is the text after the
  last separator. \<open>lineText\<close> is an LF-delimited line without what ends it: the CR of a
  CRLF, or the \<open>=\<close> and CR of a soft line break. \<open>visibleLen\<close> counts the printable
  bytes of a line.
\<close>

fun crlfLines :: "byte list \<Rightarrow> byte list list" where
  "crlfLines [] = [[]]"
| "crlfLines (c # cs) =
     (if c = CR \<and> cs \<noteq> [] \<and> hd cs = LF then [] # crlfLines (tl cs)
      else (c # hd (crlfLines cs)) # tl (crlfLines cs))"

fun lfLines :: "byte list \<Rightarrow> byte list list" where
  "lfLines [] = [[]]"
| "lfLines (c # cs) =
     (if c = LF then [] # lfLines cs
      else (c # hd (lfLines cs)) # tl (lfLines cs))"

definition lineText :: "byte list \<Rightarrow> byte list" where
  "lineText l =
     (if l \<noteq> [] \<and> last l = CR then
        (if butlast l \<noteq> [] \<and> last (butlast l) = EQ then butlast (butlast l) else butlast l)
      else l)"

definition visibleLen :: "byte list \<Rightarrow> nat" where
  "visibleLen l = length (filter (\<lambda>c. isVchar c \<or> isWSP c) l)"

text \<open>A sequence of \<open>Write\<close> calls on one line writer; a panic ends it.\<close>

fun base64Writes :: "lineWriter \<Rightarrow> byte list list \<Rightarrow> panic + lineWriter" where
  "base64Writes w [] = Inr w"
| "base64Writes w (p # ps) =
     (case base64Write w p of
        Inl x \<Rightarrow> Inl x
      | Inr (w', n, e) \<Rightarrow> base64Writes w' ps)"

fun qpWrites :: "lineWriter \<Rightarrow> slice list \<Rightarrow> panic + lineWriter" where
  "qpWrites w [] = Inr w"
| "qpWrites w (p # ps) =
     (case qpWrite w p of
        Inl x \<Rightarrow> Inl x
      | Inr (w', n, e) \<Rightarrow> qpWrites w' ps)"

section \<open>Loops are unfolded by hand\<close>

declare Encode_loop.simps [simp del]
declare countWritten.simps [simp del]
declare base64Write_loop.simps [simp del]
declare qpWrite_loop.simps [simp del]
declare getRuneSize_loop.simps [simp del]
declare encodeQ_loop.simps [simp del]
declare encodeB_loop.simps [simp del]
declare qDecode_loop.simps [simp del]
declare DecodeHeader_outer.simps [simp del]
declare DecodeHeader_words.simps [simp del]

section \<open>The quoted-printable body of 79 zeros\<close>

text \<open>
  C9. Writing a body of 79 characters \<open>0\<close> followed by CRLF through the
  quoted-printable encoder and a fresh quoted-printable line writer passes downstream
  78 characters \<open>0\<close>, then the soft break \<open>=\<close> CR LF, then the last \<open>0\<close> and the
  CRLF; the call reports all 81 bytes written and no error.
\<close>

theorem qp_body_79_zeros:
  "(case encoder_Write (\<lambda>p lw. qpWrite lw p) newLineWriter (replicate 79 48 @ [CR, LF]) of
      Inl x \<Rightarrow> False
    | Inr (lw, n, e) \<Rightarrow>
        stream lw = replicate 78 48 @ [EQ, CR, LF] @ [48] @ [CR, LF] \<and> n = 81 \<and> e = None)"
  by code_simp

section \<open>The quoted-printable line writer on a full buffer\<close>

text \<open>
  C6. A body of 26 characters \<open>=\<close> is encoded to 78 bytes that fill the encoder's
  buffer of \<open>MaxEncodedLen(26) = 78\<close> bytes. The line writer then evaluates
  \<open>p[:maxLineLen-w.lineLen+2]\<close>, which is \<open>p[:80]\<close> on a slice of capacity 78: the
  write does not return, it panics.
\<close>

theorem qpWrite_full_buffer_panics:
  "encoder_Write (\<lambda>p lw. qpWrite lw p) newLineWriter (replicate 26 EQ)
     = Inl SliceBoundsOutOfRange"
  by code_simp

section \<open>Auxiliary facts: line ends and trimming in Decode\<close>







section \<open>Auxiliary facts: the loop of Decode on a run of plain bytes\<close>




























section \<open>Decode: classification of the first bad input\<close>




section \<open>Lower-case hex digits\<close>



section \<open>Auxiliary facts: encoded units\<close>

lemma Encode_loop_units:
  "i \<le> length src \<Longrightarrow>
   Encode_loop src i dst = dst @ concat (map (encodeAt src) [i..<length src])"
proof (induction "length src - i" arbitrary: i dst)
  case 0
  then show ?case by (subst Encode_loop.simps) simp
next
  case (Suc d)
  then have i: "i < length src" by simp
  have "Encode_loop src i dst = Encode_loop src (i + 1) (dst @ encodeAt src i)"
    using i by (subst Encode_loop.simps) simp
  also have "\<dots> = (dst @ encodeAt src i) @ concat (map (encodeAt src) [i + 1..<length src])"
    using Suc i by (intro Suc(1)) auto
  finally show ?case using i by (simp add: upt_conv_Cons)
qed

lemma Encode_units: "Encode src = concat (map (encodeAt src) [0..<length src])"
  by (simp add: Encode_def Encode_loop_units)

lemma encodeAt_isUnit: "isUnit (encodeAt src i)"
  by (auto simp: isUnit_def encodeAt_def encodeByte_def isWSP_def Let_def)

lemma countWritten_fit:
  assumes "\<forall>u\<in>set us. isUnit u" "m \<le> length (concat us)"
  shows "countWritten (pre @ concat us @ rest) (length pre + m) (length pre) nn = nn + fit m us"
  using assms
proof (induction us arbitrary: pre m nn)
  case Nil
  then show ?case by (subst countWritten.simps) simp
next
  case (Cons u us)
  let ?d = "pre @ concat (u # us) @ rest"
  show ?case
  proof (cases "m = 0")
    case True
    have "0 < length u" using Cons.prems(1) by (auto simp: isUnit_def)
    then show ?thesis using True by (subst countWritten.simps) simp
  next
    case False
    then have lt: "length pre < length pre + m" by simp
    have iu: "isUnit u" using Cons.prems(1) by simp
    have d: "?d = (pre @ u) @ concat us @ rest" by simp
    from iu show ?thesis unfolding isUnit_def
    proof (elim disjE exE conjE)
      fix c assume u: "u = [c]" and c: "c \<noteq> EQ"
      have m1: "m - 1 \<le> length (concat us)" using Cons.prems(2) u by simp
      have "countWritten ?d (length pre + m) (length pre) nn
          = countWritten ?d (length pre + m) (length pre + 1) (nn + 1)"
        using lt c u by (subst countWritten.simps) (simp add: nth_append)
      also have "\<dots> = countWritten ((pre @ u) @ concat us @ rest) (length (pre @ u) + (m - 1)) (length (pre @ u)) (nn + 1)"
      proof -
        have e: "length (pre @ u) + (m - 1) = length pre + m" "length pre + 1 = length (pre @ u)"
          using False u by auto
        show ?thesis by (simp only: d e)
      qed
      also have "\<dots> = (nn + 1) + fit (m - 1) us"
        using Cons.prems(1) m1 by (intro Cons.IH) auto
      finally show ?thesis using False u by simp
    next
      fix h l assume u: "u = [EQ, h, l]"
      show ?thesis
      proof (cases "m \<le> 2")
        case True
        then show ?thesis using lt u by (subst countWritten.simps) (simp add: nth_append)
      next
        case m3: False
        have m1: "m - 3 \<le> length (concat us)" using Cons.prems(2) u by simp
        have "countWritten ?d (length pre + m) (length pre) nn
            = countWritten ?d (length pre + m) (length pre + 2 + 1) (nn + 1)"
          using lt m3 u by (subst countWritten.simps) (simp add: nth_append)
        also have "\<dots> = countWritten ((pre @ u) @ concat us @ rest) (length (pre @ u) + (m - 3)) (length (pre @ u)) (nn + 1)"
        proof -
          have e: "length (pre @ u) + (m - 3) = length pre + m" "length pre + 2 + 1 = length (pre @ u)"
            using m3 u by auto
          show ?thesis by (simp only: d e)
        qed
        also have "\<dots> = (nn + 1) + fit (m - 3) us"
          using Cons.prems(1) m1 by (intro Cons.IH) auto
        finally show ?thesis using m3 u by (simp add: numeral_3_eq_3)
      qed
    qed
  qed
qed

lemma fit_props:
  "fit m us \<le> length us \<and> length (concat (take (fit m us) us)) \<le> m \<and>
   (fit m us < length us \<longrightarrow> m < length (concat (take (Suc (fit m us)) us)))"
proof (induction us arbitrary: m)
  case Nil
  then show ?case by simp
next
  case (Cons u us)
  show ?case
  proof (cases "length u \<le> m")
    case True
    with Cons [of "m - length u"] show ?thesis by auto
  next
    case False
    then show ?thesis by simp
  qed
qed

section \<open>The streaming encoder after a short write\<close>

text \<open>
  C7. When the downstream writer accepts \<open>n\<close> bytes of the encoded text and reports
  an error, \<open>encoder.Write\<close> returns that error and a count \<open>nn\<close> of input bytes such
  that the encodings of the first \<open>nn\<close> input bytes lie whole within the \<open>n\<close> bytes
  accepted, and the encoding of the next input byte (a literal byte or a three-byte
  escape) does not: a byte whose escape was written in part is not counted. The
  encoded text is the concatenation of the encodings \<open>encodeAt p i\<close> of the input bytes.
\<close>

theorem encoder_Write_counts_whole_units:
  assumes "wr (Encode p, replicate (MaxEncodedLen (length p) - length (Encode p)) 0) w
             = Inr (w', n, Some e)"
    and "n \<le> length (Encode p)"
  shows "\<exists>nn. encoder_Write wr w p = Inr (w', nn, Some e) \<and> nn \<le> length p
     \<and> length (concat (map (encodeAt p) [0..<nn])) \<le> n
     \<and> (nn < length p \<longrightarrow> n < length (concat (map (encodeAt p) [0..<Suc nn])))
     \<and> Encode p = concat (map (encodeAt p) [0..<length p])"
proof -
  let ?us = "map (encodeAt p) [0..<length p]"
  let ?z = "replicate (MaxEncodedLen (length p) - length (Encode p)) 0"
  have enc: "Encode p = concat ?us" by (rule Encode_units)
  have u: "\<forall>u\<in>set ?us. isUnit u" by (simp add: encodeAt_isUnit)
  have n: "n \<le> length (concat ?us)" using assms(2) enc by simp
  have "countWritten ([] @ concat ?us @ ?z) (length ([] :: byte list) + n) (length ([] :: byte list)) 0
        = 0 + fit n ?us"
    by (rule countWritten_fit [OF u n])
  then have cw: "countWritten (Encode p @ ?z) n 0 0 = fit n ?us" using enc by simp
  have res: "encoder_Write wr w p = Inr (w', fit n ?us, Some e)"
    using assms(1) cw by (simp add: encoder_Write_def Let_def)
  note fp = fit_props [of n ?us]
  have tk: "take k ?us = map (encodeAt p) [0..<k]" if "k \<le> length p" for k
    using that by (simp add: take_map)
  have a: "fit n ?us \<le> length p" using fp by simp
  have b: "length (concat (map (encodeAt p) [0..<fit n ?us])) \<le> n"
    using fp tk [OF a] by simp
  have c: "n < length (concat (map (encodeAt p) [0..<Suc (fit n ?us)]))" if "fit n ?us < length p"
  proof -
    have "Suc (fit n ?us) \<le> length p" using that by simp
    from tk [OF this] fp that show ?thesis by simp
  qed
  show ?thesis using res a b c enc by blast
qed

theorem encoder_Write_counts_whole_units_witness:
  "3 \<le> length (Encode (bytes ''a=b''))
   \<and> encoder_Write (\<lambda>s w. Inr (w, 3, Some ErrUnexpectedEOF)) () (bytes ''a=b'')
       = Inr ((), 1, Some ErrUnexpectedEOF)
   \<and> (\<exists>nn. encoder_Write (\<lambda>s w. Inr (w, 3, Some ErrUnexpectedEOF)) () (bytes ''a=b'')
             = Inr ((), nn, Some ErrUnexpectedEOF)
          \<and> length (concat (map (encodeAt (bytes ''a=b'')) [0..<nn])) \<le> 3)"
proof -
  have n: "3 \<le> length (Encode (bytes ''a=b''))" by code_simp
  have v: "encoder_Write (\<lambda>s w. Inr (w, 3, Some ErrUnexpectedEOF)) () (bytes ''a=b'')
       = Inr ((), 1, Some ErrUnexpectedEOF)" by code_simp
  show ?thesis
    using n v encoder_Write_counts_whole_units
      [of "\<lambda>s w. Inr (w, 3, Some ErrUnexpectedEOF)" "bytes ''a=b''" "()" "()" 3 ErrUnexpectedEOF, OF refl n]
    by blast
qed

section \<open>Auxiliary facts: the message writer\<close>

lemma writeBody_result:
  assumes "writeBody bs enc w = Inr (Inr w')"
  shows "\<exists>b. w' = w\<lparr>buf := buf w @ [Body b]\<rparr>"
  using assms unfolding writeBody_def
  by (auto split: sum.splits prod.splits option.splits if_splits)

lemma writeHeader_result:
  assumes "writeHeader h w = Inr w'"
  shows "depth w' = depth w
       \<and> (depth w = 0 \<longrightarrow> buf w' = buf w)
       \<and> (0 < depth w \<longrightarrow> w' = w\<lparr>buf := buf w @ [CreatePart (depth w - 1) h]\<rparr>)"
  using assms unfolding writeHeader_def createPart_def
  by (auto split: if_splits)

lemma writeParts_result:
  assumes "writeParts msg ps w = Inr (Inr w')"
  shows "depth w' = depth w
       \<and> (\<exists>evs. buf w' = buf w @ evs \<and> noClose evs \<and> (depth w = 0 \<longrightarrow> onlyBodies evs))
       \<and> (0 < depth w \<longrightarrow> mwHeader w' = mwHeader w)"
  using assms
proof (induction ps arbitrary: w)
  case Nil
  then show ?case by (simp add: noClose_def onlyBodies_def)
next
  case (Cons p ps)
  obtain w1 where 1: "writeHeader (partHeader msg p) w = Inr w1"
    using Cons.prems by (cases "writeHeader (partHeader msg p) w") simp_all
  obtain r where r: "writeBody (body p) (msgEncoding msg) w1 = Inr r"
    using Cons.prems 1 by (cases "writeBody (body p) (msgEncoding msg) w1") simp_all
  obtain w2 where w2: "r = Inr w2"
    using Cons.prems 1 r by (cases r) simp_all
  have 2: "writeBody (body p) (msgEncoding msg) w1 = Inr (Inr w2)"
    using r w2 by simp
  have 3: "writeParts msg ps w2 = Inr (Inr w')"
    using Cons.prems 1 2 by simp
  note h = writeHeader_result [OF 1]
  from writeBody_result [OF 2] obtain b where b: "w2 = w1\<lparr>buf := buf w1 @ [Body b]\<rparr>" by blast
  note ih = Cons.IH [OF 3]
  from ih have "\<exists>evs. buf w' = buf w2 @ evs \<and> noClose evs \<and> (depth w2 = 0 \<longrightarrow> onlyBodies evs)"
    by (rule conjunct1 [OF conjunct2])
  then obtain evs where evs: "buf w' = buf w2 @ evs \<and> noClose evs \<and> (depth w2 = 0 \<longrightarrow> onlyBodies evs)"
    by (rule exE)
  have d2: "depth w2 = depth w" using h b by simp
  have dw: "depth w' = depth w" using ih d2 by simp
  have mh: "mwHeader w' = mwHeader w" if "0 < depth w"
  proof -
    have "mwHeader w' = mwHeader w2" using ih d2 that by simp
    moreover have "mwHeader w2 = mwHeader w1" using b by simp
    moreover have "mwHeader w1 = mwHeader w" using h that by simp
    ultimately show ?thesis by simp
  qed
  have ex: "\<exists>evs. buf w' = buf w @ evs \<and> noClose evs \<and> (depth w = 0 \<longrightarrow> onlyBodies evs)"
  proof (cases "depth w = 0")
    case True
    then have "buf w' = buf w @ (Body b # evs)" using h b evs by simp
    moreover have "noClose (Body b # evs)" "onlyBodies (Body b # evs)"
      using evs d2 True by (simp_all add: noClose_def onlyBodies_def)
    ultimately show ?thesis by (intro exI [of _ "Body b # evs"]) simp
  next
    case False
    then have w1: "w1 = w\<lparr>buf := buf w @ [CreatePart (depth w - 1) (partHeader msg p)]\<rparr>"
      using h by simp
    then have "buf w' = buf w @ (CreatePart (depth w - 1) (partHeader msg p) # Body b # evs)"
      using b evs by simp
    moreover have "noClose (CreatePart (depth w - 1) (partHeader msg p) # Body b # evs)"
      using evs by (simp add: noClose_def)
    ultimately show ?thesis using False
      by (intro exI [of _ "CreatePart (depth w - 1) (partHeader msg p) # Body b # evs"]) simp
  qed
  show ?case by (intro conjI impI dw mh ex)
qed

lemma writeAttachments_result:
  assumes "writeAttachments ev as w = Inr (Inr w')"
  shows "depth w' = depth w
       \<and> (\<exists>evs. buf w' = buf w @ evs \<and> noClose evs \<and> (depth w = 0 \<longrightarrow> onlyBodies evs))
       \<and> (0 < depth w \<longrightarrow> mwHeader w' = mwHeader w)"
  using assms
proof (induction as arbitrary: w)
  case Nil
  then show ?case by (simp add: noClose_def onlyBodies_def)
next
  case (Cons p ps)
  obtain w1 where 1: "writeHeader (attachmentHeader ev p) w = Inr w1"
    using Cons.prems by (cases "writeHeader (attachmentHeader ev p) w") simp_all
  obtain r where r: "writeBody (content p) Base64 w1 = Inr r"
    using Cons.prems 1 by (cases "writeBody (content p) Base64 w1") simp_all
  obtain w2 where w2: "r = Inr w2"
    using Cons.prems 1 r by (cases r) simp_all
  have 2: "writeBody (content p) Base64 w1 = Inr (Inr w2)"
    using r w2 by simp
  have 3: "writeAttachments ev ps w2 = Inr (Inr w')"
    using Cons.prems 1 2 by simp
  note h = writeHeader_result [OF 1]
  from writeBody_result [OF 2] obtain b where b: "w2 = w1\<lparr>buf := buf w1 @ [Body b]\<rparr>" by blast
  note ih = Cons.IH [OF 3]
  from ih have "\<exists>evs. buf w' = buf w2 @ evs \<and> noClose evs \<and> (depth w2 = 0 \<longrightarrow> onlyBodies evs)"
    by (rule conjunct1 [OF conjunct2])
  then obtain evs where evs: "buf w' = buf w2 @ evs \<and> noClose evs \<and> (depth w2 = 0 \<longrightarrow> onlyBodies evs)"
    by (rule exE)
  have d2: "depth w2 = depth w" using h b by simp
  have dw: "depth w' = depth w" using ih d2 by simp
  have mh: "mwHeader w' = mwHeader w" if "0 < depth w"
  proof -
    have "mwHeader w' = mwHeader w2" using ih d2 that by simp
    moreover have "mwHeader w2 = mwHeader w1" using b by simp
    moreover have "mwHeader w1 = mwHeader w" using h that by simp
    ultimately show ?thesis by simp
  qed
  have ex: "\<exists>evs. buf w' = buf w @ evs \<and> noClose evs \<and> (depth w = 0 \<longrightarrow> onlyBodies evs)"
  proof (cases "depth w = 0")
    case True
    then have "buf w' = buf w @ (Body b # evs)" using h b evs by simp
    moreover have "noClose (Body b # evs)" "onlyBodies (Body b # evs)"
      using evs d2 True by (simp_all add: noClose_def onlyBodies_def)
    ultimately show ?thesis by (intro exI [of _ "Body b # evs"]) simp
  next
    case False
    then have w1: "w1 = w\<lparr>buf := buf w @ [CreatePart (depth w - 1) (attachmentHeader ev p)]\<rparr>"
      using h by simp
    then have "buf w' = buf w @ (CreatePart (depth w - 1) (attachmentHeader ev p) # Body b # evs)"
      using b evs by simp
    moreover have "noClose (CreatePart (depth w - 1) (attachmentHeader ev p) # Body b # evs)"
      using evs by (simp add: noClose_def)
    ultimately show ?thesis using False
      by (intro exI [of _ "CreatePart (depth w - 1) (attachmentHeader ev p) # Body b # evs"]) simp
  qed
  show ?case by (intro conjI impI dw mh ex)
qed

lemma openMultipart_depth0:
  "depth w = 0 \<Longrightarrow>
   openMultipart ev t w =
     Inr (w\<lparr>mwHeader := (mwHeader w)(bytes ''Content-Type'' \<mapsto> [multipartType ev t 0]),
            depth := 1\<rparr>)"
  by (simp add: openMultipart_def multipartType_def Let_def)

lemma openMultipart_depth1:
  "depth w = 1 \<Longrightarrow>
   openMultipart ev t w =
     Inr (w\<lparr>buf := buf w @ [CreatePart 0 [(bytes ''Content-Type'', [multipartType ev t 1])]],
            depth := 2\<rparr>)"
  by (simp add: openMultipart_def createPart_def multipartType_def Let_def)

lemma Export_stages:
  assumes "Export ev msg = Inr (Inr w)"
  shows "\<exists>w1 w2 w3 w4.
      openIf (isMixed msg) ev (bytes ''mixed'') (newMessageWriter ev msg) = Inr w1
    \<and> openIf (isAlternative msg) ev (bytes ''alternative'') w1 = Inr w2
    \<and> writeParts msg (msgParts msg) w2 = Inr (Inr w3)
    \<and> writeAttachments ev (msgAttachments msg)
         (if isAlternative msg then closeMultipart w3 else w3) = Inr (Inr w4)
    \<and> w = (if isMixed msg then closeMultipart w4 else w4)"
proof -
  let ?o1 = "openIf (isMixed msg) ev (bytes ''mixed'') (newMessageWriter ev msg)"
  obtain w1 where o1: "?o1 = Inr w1"
    using assms unfolding Export_def by (cases ?o1) simp_all
  let ?o2 = "openIf (isAlternative msg) ev (bytes ''alternative'') w1"
  obtain w2 where o2: "?o2 = Inr w2"
    using assms o1 unfolding Export_def by (cases ?o2) simp_all
  let ?p = "writeParts msg (msgParts msg) w2"
  obtain r3 where r3: "?p = Inr r3"
    using assms o1 o2 unfolding Export_def by (cases ?p) simp_all
  obtain w3 where w3: "r3 = Inr w3"
    using assms o1 o2 r3 unfolding Export_def by (cases r3) simp_all
  let ?a = "writeAttachments ev (msgAttachments msg)
         (if isAlternative msg then closeMultipart w3 else w3)"
  obtain r4 where r4: "?a = Inr r4"
    using assms o1 o2 r3 w3 unfolding Export_def by (cases ?a) simp_all
  obtain w4 where w4: "r4 = Inr w4"
    using assms o1 o2 r3 w3 r4 unfolding Export_def by (cases r4) simp_all
  have "w = (if isMixed msg then closeMultipart w4 else w4)"
    using assms o1 o2 r3 w3 r4 w4 unfolding Export_def by simp
  then show ?thesis
    using o1 o2 r3 w3 r4 w4 by (intro exI [of _ w1] exI [of _ w2] exI [of _ w3] exI [of _ w4]) simp
qed

lemma newMessageWriter_init:
  "depth (newMessageWriter ev msg) = 0 \<and> buf (newMessageWriter ev msg) = []"
  by (simp add: newMessageWriter_def Let_def)

lemma closeMultipart_pos:
  "0 < depth w \<Longrightarrow>
   closeMultipart w = w\<lparr>buf := buf w @ [CloseWriter (depth w - 1)], depth := depth w - 1\<rparr>"
  by (simp add: closeMultipart_def)

lemma Export_shape:
  assumes "Export ev msg = Inr (Inr w)"
  shows "\<exists>evsP evsA. noClose evsP \<and> noClose evsA
     \<and> buf w =
         (if isMixed msg \<and> isAlternative msg
          then [CreatePart 0 [(bytes ''Content-Type'', [multipartType ev (bytes ''alternative'') 1])]]
          else [])
         @ evsP
         @ (if isAlternative msg then [CloseWriter (if isMixed msg then 1 else 0)] else [])
         @ evsA
         @ (if isMixed msg then [CloseWriter 0] else [])
     \<and> (\<not> isMixed msg \<and> \<not> isAlternative msg \<longrightarrow> onlyBodies evsP \<and> onlyBodies evsA)
     \<and> (isMixed msg \<longrightarrow>
          mwHeader w (bytes ''Content-Type'') = Some [multipartType ev (bytes ''mixed'') 0])
     \<and> (\<not> isMixed msg \<and> isAlternative msg \<longrightarrow>
          evsA = [] \<and>
          mwHeader w (bytes ''Content-Type'') = Some [multipartType ev (bytes ''alternative'') 0])"
proof -
  let ?w0 = "newMessageWriter ev msg"
  from Export_stages [OF assms] obtain w1 w2 w3 w4 where
    o1: "openIf (isMixed msg) ev (bytes ''mixed'') ?w0 = Inr w1" and
    o2: "openIf (isAlternative msg) ev (bytes ''alternative'') w1 = Inr w2" and
    p: "writeParts msg (msgParts msg) w2 = Inr (Inr w3)" and
    a: "writeAttachments ev (msgAttachments msg)
         (if isAlternative msg then closeMultipart w3 else w3) = Inr (Inr w4)" and
    w: "w = (if isMixed msg then closeMultipart w4 else w4)"
    by (elim exE conjE)
  note w0 = newMessageWriter_init [of ev msg]
  have w1: "w1 = (if isMixed msg
       then ?w0\<lparr>mwHeader := (mwHeader ?w0)(bytes ''Content-Type'' \<mapsto> [multipartType ev (bytes ''mixed'') 0]),
                depth := 1\<rparr>
       else ?w0)"
    using o1 w0 by (simp add: openIf_def openMultipart_depth0 split: if_splits)
  have d1: "depth w1 = (if isMixed msg then 1 else 0)" and b1: "buf w1 = []"
    using w1 w0 by (simp_all split: if_splits)
  have h1: "isMixed msg \<Longrightarrow>
      mwHeader w1 (bytes ''Content-Type'') = Some [multipartType ev (bytes ''mixed'') 0]"
    using w1 by simp
  have w2: "w2 = (if isAlternative msg then
        (if isMixed msg
         then w1\<lparr>buf := buf w1 @ [CreatePart 0 [(bytes ''Content-Type'', [multipartType ev (bytes ''alternative'') 1])]],
                depth := 2\<rparr>
         else w1\<lparr>mwHeader := (mwHeader w1)(bytes ''Content-Type'' \<mapsto> [multipartType ev (bytes ''alternative'') 0]),
                depth := 1\<rparr>)
      else w1)"
    using o2 d1 by (simp add: openIf_def openMultipart_depth0 openMultipart_depth1 split: if_splits)
  have d2: "depth w2 = (if isMixed msg then 1 else 0) + (if isAlternative msg then 1 else 0)"
    using w2 d1 by (simp split: if_splits)
  have b2: "buf w2 = (if isMixed msg \<and> isAlternative msg
          then [CreatePart 0 [(bytes ''Content-Type'', [multipartType ev (bytes ''alternative'') 1])]]
          else [])"
    using w2 b1 by (simp split: if_splits)
  have h2m: "isMixed msg \<Longrightarrow>
      mwHeader w2 (bytes ''Content-Type'') = Some [multipartType ev (bytes ''mixed'') 0]"
    using w2 h1 by (simp split: if_splits)
  have h2a: "\<not> isMixed msg \<Longrightarrow> isAlternative msg \<Longrightarrow>
      mwHeader w2 (bytes ''Content-Type'') = Some [multipartType ev (bytes ''alternative'') 0]"
    using w2 by simp
  note pr = writeParts_result [OF p]
  from pr have "\<exists>evs. buf w3 = buf w2 @ evs \<and> noClose evs \<and> (depth w2 = 0 \<longrightarrow> onlyBodies evs)"
    by (rule conjunct1 [OF conjunct2])
  then obtain evsP where evsP: "buf w3 = buf w2 @ evsP \<and> noClose evsP \<and> (depth w2 = 0 \<longrightarrow> onlyBodies evsP)"
    by (rule exE)
  have d3: "depth w3 = depth w2" using pr by simp
  have h3: "0 < depth w2 \<Longrightarrow> mwHeader w3 = mwHeader w2" using pr by simp
  let ?w3c = "if isAlternative msg then closeMultipart w3 else w3"
  have d3pos: "isAlternative msg \<Longrightarrow> 0 < depth w3" using d3 d2 by simp
  have w3c: "?w3c = (if isAlternative msg
        then w3\<lparr>buf := buf w3 @ [CloseWriter (depth w3 - 1)], depth := depth w3 - 1\<rparr> else w3)"
    using d3pos by (simp add: closeMultipart_pos)
  have d3c: "depth ?w3c = (if isMixed msg then 1 else 0)"
    using w3c d3 d2 by (simp split: if_splits)
  have b3c: "buf ?w3c = buf w2 @ evsP
      @ (if isAlternative msg then [CloseWriter (if isMixed msg then 1 else 0)] else [])"
    using w3c evsP d3 d2 by (simp split: if_splits)
  have h3c: "mwHeader ?w3c = mwHeader w3"
    using w3c by (simp split: if_splits)
  note ar = writeAttachments_result [OF a]
  from ar have "\<exists>evs. buf w4 = buf ?w3c @ evs \<and> noClose evs \<and> (depth ?w3c = 0 \<longrightarrow> onlyBodies evs)"
    by (rule conjunct1 [OF conjunct2])
  then obtain evsA where evsA: "buf w4 = buf ?w3c @ evsA \<and> noClose evsA \<and> (depth ?w3c = 0 \<longrightarrow> onlyBodies evsA)"
    by (rule exE)
  have d4: "depth w4 = depth ?w3c" using ar by (rule conjunct1)
  have h4: "0 < depth ?w3c \<Longrightarrow> mwHeader w4 = mwHeader ?w3c" using ar by simp
  have wf: "w = (if isMixed msg then w4\<lparr>buf := buf w4 @ [CloseWriter 0], depth := 0\<rparr> else w4)"
    using w d4 d3c by (simp add: closeMultipart_pos split: if_splits)
  have bw: "buf w = buf w2 @ evsP
      @ (if isAlternative msg then [CloseWriter (if isMixed msg then 1 else 0)] else [])
      @ evsA @ (if isMixed msg then [CloseWriter 0] else [])"
    using wf evsA b3c by (simp split: if_splits)
  have hw: "mwHeader w = mwHeader w4" using wf by (simp split: if_splits)
  have c1: "noClose evsP" "noClose evsA" using evsP evsA by simp_all
  have c2: "onlyBodies evsP \<and> onlyBodies evsA" if "\<not> isMixed msg" "\<not> isAlternative msg"
    using that evsP evsA d2 d3c by simp
  have c3: "mwHeader w (bytes ''Content-Type'') = Some [multipartType ev (bytes ''mixed'') 0]"
    if m: "isMixed msg"
  proof -
    have "0 < depth w2" using d2 m by simp
    then have "mwHeader w3 = mwHeader w2" by (rule h3)
    moreover have "mwHeader w4 = mwHeader ?w3c" using h4 d3c m by simp
    ultimately show ?thesis using hw h3c h2m [OF m] by simp
  qed
  have c4: "evsA = [] \<and>
          mwHeader w (bytes ''Content-Type'') = Some [multipartType ev (bytes ''alternative'') 0]"
    if nm: "\<not> isMixed msg" and al: "isAlternative msg"
  proof -
    have na: "msgAttachments msg = []"
      using nm al by (cases "msgAttachments msg") (auto simp: isMixed_def isAlternative_def)
    then have w4: "w4 = ?w3c" using a by simp
    then have e: "evsA = []" using evsA by simp
    have "0 < depth w2" using d2 al by simp
    then have "mwHeader w3 = mwHeader w2" by (rule h3)
    then show ?thesis using e hw w4 h3c h2a [OF nm al] by simp
  qed
  have bwf: "buf w =
         (if isMixed msg \<and> isAlternative msg
          then [CreatePart 0 [(bytes ''Content-Type'', [multipartType ev (bytes ''alternative'') 1])]]
          else [])
         @ evsP
         @ (if isAlternative msg then [CloseWriter (if isMixed msg then 1 else 0)] else [])
         @ evsA
         @ (if isMixed msg then [CloseWriter 0] else [])"
    using bw b2 by simp
  show ?thesis
    apply (rule exI [of _ evsP])
    apply (rule exI [of _ evsA])
    apply (intro conjI impI)
          apply (rule c1(1))
         apply (rule c1(2))
        apply (rule bwf)
       apply (rule conjunct1 [OF c2]; simp)
      apply (rule conjunct2 [OF c2]; simp)
     apply (rule c3; simp)
    apply (rule conjunct1 [OF c4]; simp)
    apply (rule conjunct2 [OF c4]; simp)
    done
qed

lemma writeBody_result_exact:
  assumes "writeBody bs enc w = Inr (Inr w')"
  shows "\<exists>lw n.
      (if enc = Base64 then base64Write newLineWriter (EncodeToString bs)
       else encoder_Write (\<lambda>p lw. qpWrite lw p) newLineWriter bs) = Inr (lw, n, None)
    \<and> w' = w\<lparr>buf := buf w @ [Body (stream lw)]\<rparr>"
proof -
  let ?r = "if enc = Base64 then base64Write newLineWriter (EncodeToString bs)
       else encoder_Write (\<lambda>p lw. qpWrite lw p) newLineWriter bs"
  obtain x where x: "?r = Inr x"
    using assms unfolding writeBody_def by (cases ?r) simp_all
  obtain lw n e where t: "x = (lw, n, e)" by (cases x)
  have e: "e = None"
    using assms x t unfolding writeBody_def by (cases e) simp_all
  have "w' = w\<lparr>buf := buf w @ [Body (stream lw)]\<rparr>"
    using assms x t e unfolding writeBody_def by simp
  then show ?thesis using x t e by (intro exI [of _ lw] exI [of _ n]) simp
qed

lemma writeHeader_depth1:
  "depth w = 1 \<Longrightarrow> writeHeader h w = Inr (w\<lparr>buf := buf w @ [CreatePart 0 h]\<rparr>)"
  by (simp add: writeHeader_def createPart_def)

lemma writeParts_Cons:
  assumes "writeParts msg (p # ps) w = Inr (Inr w')"
  shows "\<exists>w1 w2. writeHeader (partHeader msg p) w = Inr w1
     \<and> writeBody (body p) (msgEncoding msg) w1 = Inr (Inr w2)
     \<and> writeParts msg ps w2 = Inr (Inr w')"
proof -
  obtain w1 where 1: "writeHeader (partHeader msg p) w = Inr w1"
    using assms by (cases "writeHeader (partHeader msg p) w") simp_all
  obtain r where r: "writeBody (body p) (msgEncoding msg) w1 = Inr r"
    using assms 1 by (cases "writeBody (body p) (msgEncoding msg) w1") simp_all
  obtain w2 where w2: "r = Inr w2"
    using assms 1 r by (cases r) simp_all
  have "writeParts msg ps w2 = Inr (Inr w')"
    using assms 1 r w2 by simp
  then show ?thesis using 1 r w2 by (intro exI [of _ w1] exI [of _ w2]) simp
qed

lemma writeAttachments_Cons:
  assumes "writeAttachments ev (p # ps) w = Inr (Inr w')"
  shows "\<exists>w1 w2. writeHeader (attachmentHeader ev p) w = Inr w1
     \<and> writeBody (content p) Base64 w1 = Inr (Inr w2)
     \<and> writeAttachments ev ps w2 = Inr (Inr w')"
proof -
  obtain w1 where 1: "writeHeader (attachmentHeader ev p) w = Inr w1"
    using assms by (cases "writeHeader (attachmentHeader ev p) w") simp_all
  obtain r where r: "writeBody (content p) Base64 w1 = Inr r"
    using assms 1 by (cases "writeBody (content p) Base64 w1") simp_all
  obtain w2 where w2: "r = Inr w2"
    using assms 1 r by (cases r) simp_all
  have "writeAttachments ev ps w2 = Inr (Inr w')"
    using assms 1 r w2 by simp
  then show ?thesis using 1 r w2 by (intro exI [of _ w1] exI [of _ w2]) simp
qed

lemma Export_part_and_two_attachments:
  assumes "Export ev msg = Inr (Inr w)" "msgParts msg = [p]" "msgAttachments msg = [a1, a2]"
  shows "\<exists>b0 lw1 n1 lw2 n2.
       base64Write newLineWriter (EncodeToString (content a1)) = Inr (lw1, n1, None)
     \<and> base64Write newLineWriter (EncodeToString (content a2)) = Inr (lw2, n2, None)
     \<and> buf w = [CreatePart 0 (partHeader msg p), Body b0,
                CreatePart 0 (attachmentHeader ev a1), Body (stream lw1),
                CreatePart 0 (attachmentHeader ev a2), Body (stream lw2),
                CloseWriter 0]"
proof -
  have m: "isMixed msg" and na: "\<not> isAlternative msg"
    using assms(2,3) by (simp_all add: isMixed_def isAlternative_def)
  let ?w0 = "newMessageWriter ev msg"
  from Export_stages [OF assms(1)] obtain w1 w2 w3 w4 where
    o1: "openIf (isMixed msg) ev (bytes ''mixed'') ?w0 = Inr w1" and
    o2: "openIf (isAlternative msg) ev (bytes ''alternative'') w1 = Inr w2" and
    p: "writeParts msg (msgParts msg) w2 = Inr (Inr w3)" and
    a: "writeAttachments ev (msgAttachments msg)
         (if isAlternative msg then closeMultipart w3 else w3) = Inr (Inr w4)" and
    w: "w = (if isMixed msg then closeMultipart w4 else w4)"
    by (elim exE conjE)
  note w0 = newMessageWriter_init [of ev msg]
  have w1: "depth w1 = 1" "buf w1 = []"
    using o1 w0 m by (auto simp add: openIf_def openMultipart_depth0)
  have w2: "w2 = w1" using o2 na by (simp add: openIf_def)
  from writeParts_Cons [OF p [unfolded assms(2)]] obtain u1 u2 where
    u1: "writeHeader (partHeader msg p) w2 = Inr u1" and
    u2: "writeBody (body p) (msgEncoding msg) u1 = Inr (Inr u2)" and
    u3: "writeParts msg [] u2 = Inr (Inr w3)"
    by (elim exE conjE)
  have u1v: "u1 = w1\<lparr>buf := [CreatePart 0 (partHeader msg p)]\<rparr>"
    using u1 w2 w1 by (simp add: writeHeader_depth1)
  from writeBody_result [OF u2] obtain b0 where b0: "u2 = u1\<lparr>buf := buf u1 @ [Body b0]\<rparr>"
    by (rule exE)
  have w3: "w3 = w1\<lparr>buf := [CreatePart 0 (partHeader msg p), Body b0]\<rparr>"
    using u3 b0 u1v by simp
  have a': "writeAttachments ev [a1, a2] w3 = Inr (Inr w4)"
    using a na assms(3) by simp
  from writeAttachments_Cons [OF a'] obtain v1 v2 where
    v1: "writeHeader (attachmentHeader ev a1) w3 = Inr v1" and
    v2: "writeBody (content a1) Base64 v1 = Inr (Inr v2)" and
    v3: "writeAttachments ev [a2] v2 = Inr (Inr w4)"
    by (elim exE conjE)
  have v1v: "v1 = w3\<lparr>buf := buf w3 @ [CreatePart 0 (attachmentHeader ev a1)]\<rparr>"
    using v1 w3 w1 by (simp add: writeHeader_depth1)
  from writeBody_result_exact [OF v2] obtain lw1 n1 where
    l1: "base64Write newLineWriter (EncodeToString (content a1)) = Inr (lw1, n1, None)" and
    v2v: "v2 = v1\<lparr>buf := buf v1 @ [Body (stream lw1)]\<rparr>"
    by (elim exE conjE) simp
  from writeAttachments_Cons [OF v3] obtain x1 x2 where
    x1: "writeHeader (attachmentHeader ev a2) v2 = Inr x1" and
    x2: "writeBody (content a2) Base64 x1 = Inr (Inr x2)" and
    x3: "writeAttachments ev [] x2 = Inr (Inr w4)"
    by (elim exE conjE)
  have x1v: "x1 = v2\<lparr>buf := buf v2 @ [CreatePart 0 (attachmentHeader ev a2)]\<rparr>"
    using x1 v2v v1v w3 w1 by (simp add: writeHeader_depth1)
  from writeBody_result_exact [OF x2] obtain lw2 n2 where
    l2: "base64Write newLineWriter (EncodeToString (content a2)) = Inr (lw2, n2, None)" and
    x2v: "x2 = x1\<lparr>buf := buf x1 @ [Body (stream lw2)]\<rparr>"
    by (elim exE conjE) simp
  have w4: "w4 = x2" using x3 by simp
  have d4: "depth w4 = 1" using w4 x2v x1v v2v v1v w3 w1 by simp
  have "buf w = [CreatePart 0 (partHeader msg p), Body b0,
                CreatePart 0 (attachmentHeader ev a1), Body (stream lw1),
                CreatePart 0 (attachmentHeader ev a2), Body (stream lw2),
                CloseWriter 0]"
    using w m d4 w4 x2v x1v v2v v1v w3 by (simp add: closeMultipart_pos)
  then show ?thesis
    using l1 l2
    by (intro exI [of _ b0] exI [of _ lw1] exI [of _ n1] exI [of _ lw2] exI [of _ n2]) simp
qed

section \<open>The shape of an exported message\<close>

text \<open>
  C8. \<open>isMixed\<close> holds exactly when the message has a part and an attachment, or more
  than one attachment, and \<open>isAlternative\<close> exactly when it has more than one part.
  Whenever \<open>Export\<close> returns a message, its body buffer is: the part that opens
  \<open>multipart/alternative\<close> inside \<open>multipart/mixed\<close> (when both hold), first of all;
  the events of the parts; the closing of the alternative writer (when \<open>isAlternative\<close>);
  the events of the attachments; the closing of the mixed writer (when \<open>isMixed\<close>). No
  other writer is closed, and with neither wrapper the buffer holds bodies only. The
  top-level \<open>Content-Type\<close> is \<open>multipart/mixed\<close> when \<open>isMixed\<close>, and
  \<open>multipart/alternative\<close> when only \<open>isAlternative\<close> holds. For one part and two
  attachments the buffer is the part, the two attachment parts, whose bodies are the
  base64 texts of their contents through the base64 line writer and whose headers say
  \<open>base64\<close>, and the closing of the mixed writer; nothing is opened for an alternative.
\<close>

theorem Export_multipart_decisions:
  assumes "Export ev msg = Inr (Inr w)"
  shows "(isMixed msg \<longleftrightarrow>
            (msgParts msg \<noteq> [] \<and> msgAttachments msg \<noteq> []) \<or> 1 < length (msgAttachments msg))
     \<and> (isAlternative msg \<longleftrightarrow> 1 < length (msgParts msg))
     \<and> (\<exists>evsP evsA. noClose evsP \<and> noClose evsA
         \<and> buf w =
             (if isMixed msg \<and> isAlternative msg
              then [CreatePart 0
                      [(bytes ''Content-Type'', [multipartType ev (bytes ''alternative'') 1])]]
              else [])
             @ evsP
             @ (if isAlternative msg then [CloseWriter (if isMixed msg then 1 else 0)] else [])
             @ evsA
             @ (if isMixed msg then [CloseWriter 0] else [])
         \<and> (\<not> isMixed msg \<and> \<not> isAlternative msg \<longrightarrow> onlyBodies evsP \<and> onlyBodies evsA)
         \<and> (isMixed msg \<longrightarrow>
              mwHeader w (bytes ''Content-Type'')
                = Some [multipartType ev (bytes ''mixed'') 0])
         \<and> (\<not> isMixed msg \<and> isAlternative msg \<longrightarrow>
              evsA = [] \<and>
              mwHeader w (bytes ''Content-Type'')
                = Some [multipartType ev (bytes ''alternative'') 0]))
     \<and> (msgParts msg = [p] \<and> msgAttachments msg = [a1, a2] \<longrightarrow>
          isMixed msg \<and> \<not> isAlternative msg
        \<and> (bytes ''Content-Transfer-Encoding'', [Base64]) \<in> set (attachmentHeader ev a1)
        \<and> (bytes ''Content-Transfer-Encoding'', [Base64]) \<in> set (attachmentHeader ev a2)
        \<and> (\<exists>b0 lw1 n1 lw2 n2.
              base64Write newLineWriter (EncodeToString (content a1)) = Inr (lw1, n1, None)
            \<and> base64Write newLineWriter (EncodeToString (content a2)) = Inr (lw2, n2, None)
            \<and> buf w = [CreatePart 0 (partHeader msg p), Body b0,
                       CreatePart 0 (attachmentHeader ev a1), Body (stream lw1),
                       CreatePart 0 (attachmentHeader ev a2), Body (stream lw2),
                       CloseWriter 0]))"
proof -
  have 1: "isMixed msg \<longleftrightarrow>
            (msgParts msg \<noteq> [] \<and> msgAttachments msg \<noteq> []) \<or> 1 < length (msgAttachments msg)"
    by (simp add: isMixed_def)
  have 2: "isAlternative msg \<longleftrightarrow> 1 < length (msgParts msg)"
    by (simp add: isAlternative_def)
  note 3 = Export_shape [OF assms]
  have 4: "isMixed msg \<and> \<not> isAlternative msg
        \<and> (bytes ''Content-Transfer-Encoding'', [Base64]) \<in> set (attachmentHeader ev a1)
        \<and> (bytes ''Content-Transfer-Encoding'', [Base64]) \<in> set (attachmentHeader ev a2)
        \<and> (\<exists>b0 lw1 n1 lw2 n2.
              base64Write newLineWriter (EncodeToString (content a1)) = Inr (lw1, n1, None)
            \<and> base64Write newLineWriter (EncodeToString (content a2)) = Inr (lw2, n2, None)
            \<and> buf w = [CreatePart 0 (partHeader msg p), Body b0,
                       CreatePart 0 (attachmentHeader ev a1), Body (stream lw1),
                       CreatePart 0 (attachmentHeader ev a2), Body (stream lw2),
                       CloseWriter 0])"
    if pa: "msgParts msg = [p] \<and> msgAttachments msg = [a1, a2]"
  proof -
    have m: "isMixed msg" "\<not> isAlternative msg"
      using pa by (simp_all add: isMixed_def isAlternative_def)
    have h: "(bytes ''Content-Transfer-Encoding'', [Base64]) \<in> set (attachmentHeader ev a)" for a
      by (simp add: attachmentHeader_def Let_def)
    from pa have "msgParts msg = [p]" "msgAttachments msg = [a1, a2]" by simp_all
    note Export_part_and_two_attachments [OF assms this]
    with m h show ?thesis by (intro conjI)
  qed
  have 5: "msgParts msg = [p] \<and> msgAttachments msg = [a1, a2] \<longrightarrow>
          isMixed msg \<and> \<not> isAlternative msg
        \<and> (bytes ''Content-Transfer-Encoding'', [Base64]) \<in> set (attachmentHeader ev a1)
        \<and> (bytes ''Content-Transfer-Encoding'', [Base64]) \<in> set (attachmentHeader ev a2)
        \<and> (\<exists>b0 lw1 n1 lw2 n2.
              base64Write newLineWriter (EncodeToString (content a1)) = Inr (lw1, n1, None)
            \<and> base64Write newLineWriter (EncodeToString (content a2)) = Inr (lw2, n2, None)
            \<and> buf w = [CreatePart 0 (partHeader msg p), Body b0,
                       CreatePart 0 (attachmentHeader ev a1), Body (stream lw1),
                       CreatePart 0 (attachmentHeader ev a2), Body (stream lw2),
                       CloseWriter 0])"
    by (rule impI) (rule 4)
  show ?thesis
    by (rule conjI, rule 1, rule conjI, rule 2, rule conjI, rule 3, rule 5)
qed

theorem Export_multipart_decisions_witness:
  "\<exists>w. Export testEnv testMessage = Inr (Inr w)
       \<and> isMixed testMessage \<and> \<not> isAlternative testMessage
       \<and> mwHeader w (bytes ''Content-Type'')
           = Some [bytes ''multipart/mixed; boundary=b0'']
       \<and> (\<exists>b0 b1 b2.
            buf w = [CreatePart 0 (partHeader testMessage testPart), Body b0,
                     CreatePart 0 (attachmentHeader testEnv testPdf), Body b1,
                     CreatePart 0 (attachmentHeader testEnv testZip), Body b2,
                     CloseWriter 0])"
proof -
  have "case Export testEnv testMessage of Inr (Inr w) \<Rightarrow> True | _ \<Rightarrow> False"
    by code_simp
  then obtain w where w: "Export testEnv testMessage = Inr (Inr w)"
    by (cases "Export testEnv testMessage" rule: sum.exhaust [case_product sum.exhaust]) (auto split: sum.splits)
  have pa: "msgParts testMessage = [testPart] \<and> msgAttachments testMessage = [testPdf, testZip]"
    by (simp add: testMessage_def)
  note t = Export_multipart_decisions [OF w, of testPart testPdf testZip]
  from t pa have m: "isMixed testMessage" "\<not> isAlternative testMessage" by simp_all
  from t m have h: "mwHeader w (bytes ''Content-Type'')
           = Some [multipartType testEnv (bytes ''mixed'') 0]"
    by (elim conjE exE) simp
  have mt: "multipartType testEnv (bytes ''mixed'') 0 = bytes ''multipart/mixed; boundary=b0''"
    by (simp add: multipartType_def testEnv_def bytes_def)
  from t pa have "\<exists>b0 lw1 n1 lw2 n2.
              base64Write newLineWriter (EncodeToString (content testPdf)) = Inr (lw1, n1, None)
            \<and> base64Write newLineWriter (EncodeToString (content testZip)) = Inr (lw2, n2, None)
            \<and> buf w = [CreatePart 0 (partHeader testMessage testPart), Body b0,
                       CreatePart 0 (attachmentHeader testEnv testPdf), Body (stream lw1),
                       CreatePart 0 (attachmentHeader testEnv testZip), Body (stream lw2),
                       CloseWriter 0]"
    by simp
  then obtain b0 lw1 lw2 where
    "buf w = [CreatePart 0 (partHeader testMessage testPart), Body b0,
                       CreatePart 0 (attachmentHeader testEnv testPdf), Body (stream lw1),
                       CreatePart 0 (attachmentHeader testEnv testZip), Body (stream lw2),
                       CloseWriter 0]"
    by (elim exE conjE)
  then have "\<exists>b0 b1 b2.
            buf w = [CreatePart 0 (partHeader testMessage testPart), Body b0,
                     CreatePart 0 (attachmentHeader testEnv testPdf), Body b1,
                     CreatePart 0 (attachmentHeader testEnv testZip), Body b2,
                     CloseWriter 0]"
    by (intro exI [of _ b0] exI [of _ "stream lw1"] exI [of _ "stream lw2"])
  with w m h mt show ?thesis
    by (intro exI [of _ w]) simp
qed

end
